theory Spec2Isabelle
  imports Complex_Main "HOL-Library.Log_Nat"
begin

section \<open>The calendar of Python's datetime module\<close>

text \<open>
  The calculators of \<^verbatim>\<open>wallpaper_engine.py\<close> work on \<^verbatim>\<open>datetime.date\<close> and
  \<^verbatim>\<open>datetime.datetime\<close> values. A date is a year, a month and a day of the proleptic
  Gregorian calendar; subtracting two dates gives the difference of their ordinals
  (\<^verbatim>\<open>date.toordinal\<close>), and dates compare lexicographically on (year, month, day).
\<close>

datatype py_error =
  ValueError | RuntimeError | OverflowError | ZeroDivisionError | FileNotFoundError | OSError

record date =
  year :: int
  month :: int
  day :: int

text \<open>\<^verbatim>\<open>calendar.isleap(year)\<close>.\<close>

definition isleap :: "int \<Rightarrow> bool" where
  "isleap y \<longleftrightarrow> y mod 4 = 0 \<and> (y mod 100 \<noteq> 0 \<or> y mod 400 = 0)"

definition days_before_year :: "int \<Rightarrow> int" where
  "days_before_year y = (let y1 = y - 1 in y1 * 365 + y1 div 4 - y1 div 100 + y1 div 400)"

definition days_in_month :: "int \<Rightarrow> int \<Rightarrow> int" where
  "days_in_month y m =
     (if m = 2 \<and> isleap y then 29
      else if m = 2 then 28
      else if m = 4 \<or> m = 6 \<or> m = 9 \<or> m = 11 then 30
      else 31)"

definition days_before_month :: "int \<Rightarrow> int \<Rightarrow> int" where
  "days_before_month y m =
     (if m = 1 then 0 else if m = 2 then 31 else if m = 3 then 59 else if m = 4 then 90
      else if m = 5 then 120 else if m = 6 then 151 else if m = 7 then 181
      else if m = 8 then 212 else if m = 9 then 243 else if m = 10 then 273
      else if m = 11 then 304 else 334)
     + (if 2 < m \<and> isleap y then 1 else 0)"

definition toordinal :: "date \<Rightarrow> int" where
  "toordinal d = days_before_year (year d) + days_before_month (year d) (month d) + day d"

text \<open>The dates that a \<^verbatim>\<open>date\<close> object can hold (MINYEAR = 1, MAXYEAR = 9999).\<close>

definition valid_date :: "date \<Rightarrow> bool" where
  "valid_date d \<longleftrightarrow>
     1 \<le> year d \<and> year d \<le> 9999 \<and> 1 \<le> month d \<and> month d \<le> 12 \<and>
     1 \<le> day d \<and> day d \<le> days_in_month (year d) (month d)"

text \<open>\<^verbatim>\<open>(a - b).days\<close> for two dates.\<close>

definition days_between :: "date \<Rightarrow> date \<Rightarrow> int" where
  "days_between a b = toordinal a - toordinal b"

text \<open>\<^verbatim>\<open>a < b\<close> and \<^verbatim>\<open>a <= b\<close> on dates: the comparison of the triples.\<close>

definition date_less :: "date \<Rightarrow> date \<Rightarrow> bool" where
  "date_less a b \<longleftrightarrow>
     year a < year b \<or> (year a = year b \<and>
       (month a < month b \<or> (month a = month b \<and> day a < day b)))"

definition date_le :: "date \<Rightarrow> date \<Rightarrow> bool" where
  "date_le a b \<longleftrightarrow> date_less a b \<or> (year a = year b \<and> month a = month b \<and> day a = day b)"

text \<open>
  A \<^verbatim>\<open>datetime\<close> is a date and a time of day, here the microseconds since midnight;
  \<^verbatim>\<open>.date()\<close> is the field \<open>dt_date\<close>.
\<close>

record datetime =
  dt_date :: date
  dt_micros :: int

definition datetime_le :: "datetime \<Rightarrow> datetime \<Rightarrow> bool" where
  "datetime_le a b \<longleftrightarrow>
     date_less (dt_date a) (dt_date b) \<or>
     (date_le (dt_date a) (dt_date b) \<and> dt_micros a \<le> dt_micros b)"

text \<open>\<^verbatim>\<open>datetime(y, m, d)\<close>: midnight of that day.\<close>

definition midnight :: "date \<Rightarrow> datetime" where
  "midnight d = \<lparr>dt_date = \<lparr>year = year d, month = month d, day = day d\<rparr>, dt_micros = 0\<rparr>"

section \<open>Python floats\<close>

text \<open>
  A Python \<^verbatim>\<open>float\<close> is an IEEE-754 binary64 number. The finite floats are the reals
  \<open>m * 2 ^ e\<close> with \<open>\<bar>m\<bar> < 2 ^ 53\<close> and \<open>- 1074 \<le> e\<close>, and every arithmetic operation
  returns the exact result rounded to the nearest float, ties going to the even
  mantissa. \<open>fl\<close> is that rounding; a float is modelled by the real number it denotes.
  (The operations below are applied where the result is no larger in magnitude than
  the largest operand, or far below the largest float, so that \<^verbatim>\<open>inf\<close> does not arise
  from them; the conversion of an \<^verbatim>\<open>int\<close> is where \<^verbatim>\<open>OverflowError\<close> is raised.)
\<close>

definition pow2 :: "int \<Rightarrow> real" where
  "pow2 e = (if 0 \<le> e then 2 ^ nat e else 1 / 2 ^ nat (- e))"

text \<open>For \<open>0 < x\<close>, the integer \<open>k\<close> with \<open>2 ^ k \<le> x < 2 ^ (k + 1)\<close>.\<close>

definition ilog2 :: "real \<Rightarrow> int" where
  "ilog2 x = (if 1 \<le> x then bitlen \<lfloor>x\<rfloor> - 1 else - bitlen (\<lceil>1 / x\<rceil> - 1))"

definition round_half_even :: "real \<Rightarrow> int" where
  "round_half_even x =
     (let f = \<lfloor>x\<rfloor>; r = x - of_int f
      in if r < 1 / 2 then f else if 1 / 2 < r then f + 1 else if even f then f else f + 1)"

text \<open>The exponent of the last mantissa bit of the float nearest to \<open>x\<close> (\<open>0 < x\<close>).\<close>

definition ulp_exp :: "real \<Rightarrow> int" where
  "ulp_exp x = max (ilog2 x - 52) (- 1074)"

definition fl :: "real \<Rightarrow> real" where
  "fl x = (if x = 0 then 0
           else (let a = \<bar>x\<bar>; e = ulp_exp a
                 in sgn x * of_int (round_half_even (a / pow2 e)) * pow2 e))"

text \<open>\<^verbatim>\<open>float(n)\<close> for an \<^verbatim>\<open>int\<close>, as done implicitly in mixed arithmetic.\<close>

definition float_of_int :: "int \<Rightarrow> py_error + real" where
  "float_of_int n =
     (let r = fl (of_int n) in if 2 ^ 1024 \<le> \<bar>r\<bar> then Inl OverflowError else Inr r)"

text \<open>\<^verbatim>\<open>int(x)\<close> for a float: truncation towards zero.\<close>

definition int_of_float :: "real \<Rightarrow> int" where
  "int_of_float x = (if 0 \<le> x then \<lfloor>x\<rfloor> else \<lceil>x\<rceil>)"

text \<open>\<^verbatim>\<open>n * x\<close> for an \<^verbatim>\<open>int\<close> \<open>n\<close> and a float \<open>x\<close>.\<close>

definition int_mul_float :: "int \<Rightarrow> real \<Rightarrow> py_error + real" where
  "int_mul_float n x = (case float_of_int n of Inl e \<Rightarrow> Inl e | Inr a \<Rightarrow> Inr (fl (a * x)))"

text \<open>\<^verbatim>\<open>x / n\<close> for a float \<open>x\<close> and an \<^verbatim>\<open>int\<close> \<open>n\<close>.\<close>

definition float_div_int :: "real \<Rightarrow> int \<Rightarrow> py_error + real" where
  "float_div_int x n =
     (case float_of_int n of Inl e \<Rightarrow> Inl e
      | Inr b \<Rightarrow> if b = 0 then Inl ZeroDivisionError else Inr (fl (x / b)))"

text \<open>\<^verbatim>\<open>a / b\<close> for two \<^verbatim>\<open>int\<close>s: the exact quotient, rounded once.\<close>

definition int_truediv :: "int \<Rightarrow> int \<Rightarrow> py_error + real" where
  "int_truediv a b =
     (if b = 0 then Inl ZeroDivisionError
      else (let r = fl (of_int a / of_int b)
            in if 2 ^ 1024 \<le> \<bar>r\<bar> then Inl OverflowError else Inr r))"

section \<open>Helper functions\<close>

text \<open>
  \<^verbatim>\<open>
  def safe_date(date_str, fmt="%Y-%m-%d"):
      try:
          return datetime.strptime(date_str, fmt)
      except (ValueError, TypeError):
          return None
  \<close>
  \<^verbatim>\<open>datetime.strptime\<close> is the standard library's parser; it is a parameter of the
  model, \<open>None\<close> standing for the \<^verbatim>\<open>ValueError\<close> it raises on a string that is not
  a date in the format.
\<close>

type_synonym strptime = "string \<Rightarrow> datetime option"

definition safe_date :: "strptime \<Rightarrow> string \<Rightarrow> datetime option" where
  "safe_date strptime date_str =
     (case strptime date_str of Some parsed \<Rightarrow> Some parsed | None \<Rightarrow> None)"

section \<open>Data layer\<close>

subsection \<open>LifeCalendarData\<close>

record life_calendar =
  dob :: datetime
  lifespan :: int

text \<open>
  \<^verbatim>\<open>LifeCalendarData.__init__\<close>: an unparsable date of birth raises \<^verbatim>\<open>ValueError\<close>,
  the lifespan is clamped to 1..150.
\<close>

definition LifeCalendarData :: "strptime \<Rightarrow> string \<Rightarrow> int \<Rightarrow> py_error + life_calendar" where
  "LifeCalendarData strptime dob_str lifespan_years =
     (case safe_date strptime dob_str of
        None \<Rightarrow> Inl ValueError
      | Some parsed \<Rightarrow> Inr \<lparr>dob = parsed, lifespan = max 1 (min lifespan_years 150)\<rparr>)"

text \<open>
  \<^verbatim>\<open>LifeCalendarData.calculate\<close>, given the value of \<^verbatim>\<open>datetime.now()\<close>. The source's
  \<^verbatim>\<open>int(self.lifespan * 365.2425)\<close> is a float product, truncated; \<^verbatim>\<open>//\<close> is floor
  division. The result is (total_weeks, weeks_lived).
\<close>

definition life_calculate :: "datetime \<Rightarrow> life_calendar \<Rightarrow> py_error + int \<times> int" where
  "life_calculate now lc =
     (let days_lived = days_between (dt_date now) (dt_date (dob lc));
          weeks_lived = days_lived div 7
      in case int_mul_float (lifespan lc) (fl (3652425 / 10000)) of
           Inl e \<Rightarrow> Inl e
         | Inr product \<Rightarrow>
             (let total_days = int_of_float product;
                  total_weeks = total_days div 7;
                  weeks_lived = min weeks_lived total_weeks
              in Inr (total_weeks, weeks_lived)))"

subsection \<open>YearCalendarData\<close>

text \<open>
  \<^verbatim>\<open>YearCalendarData.calculate\<close>, given the value of \<^verbatim>\<open>date.today()\<close>. The result is
  the pair (total_units, filled_units); the third component of the source's tuple, the
  statistics text, is formatting of these two numbers.
\<close>

definition year_calculate :: "date \<Rightarrow> int \<times> int" where
  "year_calculate today =
     (let yr = year today;
          is_leap = isleap yr;
          total_days = (if is_leap then 366 else 365);
          start_of_year = \<lparr>year = yr, month = 1, day = 1\<rparr>;
          day_of_year = days_between today start_of_year + 1;
          day_of_year = min day_of_year total_days
      in (total_days, day_of_year))"

subsection \<open>GoalCalendarData\<close>

record goal_calendar =
  goal_start :: datetime
  goal_end :: datetime

text \<open>
  \<^verbatim>\<open>GoalCalendarData.__init__\<close>: both strings are parsed, both dates are normalised to
  midnight, and an end that is not after the start is refused. (The title and the
  subtitle are stored for drawing only.)
\<close>

definition GoalCalendarData :: "strptime \<Rightarrow> string \<Rightarrow> string \<Rightarrow> py_error + goal_calendar" where
  "GoalCalendarData strptime start_str end_str =
     (let start_date = safe_date strptime start_str;
          end_date = safe_date strptime end_str
      in case start_date of None \<Rightarrow> Inl ValueError
         | Some sd \<Rightarrow>
        (case end_date of None \<Rightarrow> Inl ValueError
         | Some ed \<Rightarrow>
            (let s = midnight (dt_date sd); e = midnight (dt_date ed)
             in if datetime_le e s then Inl ValueError
                else Inr \<lparr>goal_start = s, goal_end = e\<rparr>)))"

text \<open>\<^verbatim>\<open>GoalCalendarData.calculate\<close>, given the value of \<^verbatim>\<open>datetime.now()\<close>.\<close>

definition goal_calculate :: "datetime \<Rightarrow> goal_calendar \<Rightarrow> int \<times> int" where
  "goal_calculate now_dt g =
     (let now = dt_date now_dt;
          total_days = days_between (dt_date (goal_end g)) (dt_date (goal_start g));
          passed_days =
            (if date_less now (dt_date (goal_start g)) then 0
             else if date_less (dt_date (goal_end g)) now then total_days
             else days_between now (dt_date (goal_start g)))
      in (total_days, passed_days))"

section \<open>Layout layer\<close>

record grid_layout =
  mode :: string
  total_units :: int
  canvas_width :: int
  canvas_height :: int
  columns :: int
  rows :: int
  cell_size :: int
  gap :: int
  grid_width :: int
  grid_height :: int
  start_x :: int
  start_y :: int

text \<open>\<^verbatim>\<open>GridLayout._get_columns\<close>, reading \<^verbatim>\<open>self.mode\<close> and \<^verbatim>\<open>self.total_units\<close>.\<close>

definition get_columns :: "string \<Rightarrow> int \<Rightarrow> int" where
  "get_columns md units =
     (if md = ''life'' then 52
      else if md = ''year'' then 31
      else if md = ''goal'' then (if units \<le> 365 then min 52 units else 60)
      else 52)"

text \<open>
  \<^verbatim>\<open>GridLayout._calculate_dimensions\<close>. Given the canvas, the columns and the rows it
  computes (cell_size, gap, grid_width, grid_height, start_x, start_y). The source
  computes in floats:
  \<^verbatim>\<open>
  available_width = self.canvas_width * 0.9
  available_height = self.canvas_height * 0.75
  max_cell_width = available_width / self.columns
  max_cell_height = available_height / self.rows
  self.cell_size = int(min(max_cell_width, max_cell_height, 20))
  self.gap = int(max(2, self.cell_size * 0.15))
  self.grid_width = int(self.columns * self.cell_size + (self.columns - 1) * self.gap)
  self.grid_height = int(self.rows * self.cell_size + (self.rows - 1) * self.gap)
  self.start_x = int((self.canvas_width - self.grid_width) / 2)
  self.start_y = int((self.canvas_height - self.grid_height) / 2 + 60)
  \<close>
\<close>

definition calculate_dimensions ::
  "int \<Rightarrow> int \<Rightarrow> int \<Rightarrow> int \<Rightarrow> py_error + (int \<times> int \<times> int \<times> int \<times> int \<times> int)" where
  "calculate_dimensions cw ch cols rws =
     (case int_mul_float cw (fl (9 / 10)) of Inl e \<Rightarrow> Inl e | Inr available_width \<Rightarrow>
      case int_mul_float ch (fl (75 / 100)) of Inl e \<Rightarrow> Inl e | Inr available_height \<Rightarrow>
      case float_div_int available_width cols of Inl e \<Rightarrow> Inl e | Inr max_cell_width \<Rightarrow>
      case float_div_int available_height rws of Inl e \<Rightarrow> Inl e | Inr max_cell_height \<Rightarrow>
        (let cell = int_of_float (min (min max_cell_width max_cell_height) 20)
         in case int_mul_float cell (fl (15 / 100)) of Inl e \<Rightarrow> Inl e | Inr g \<Rightarrow>
           (let gp = int_of_float (max 2 g);
                gw = cols * cell + (cols - 1) * gp;
                gh = rws * cell + (rws - 1) * gp
            in case int_truediv (cw - gw) 2 of Inl e \<Rightarrow> Inl e | Inr sx \<Rightarrow>
               case int_truediv (ch - gh) 2 of Inl e \<Rightarrow> Inl e | Inr sy \<Rightarrow>
                 Inr (cell, gp, gw, gh, int_of_float sx, int_of_float (fl (sy + 60))))))"

text \<open>\<^verbatim>\<open>GridLayout.__init__\<close>.\<close>

definition GridLayout :: "string \<Rightarrow> int \<Rightarrow> int \<Rightarrow> int \<Rightarrow> py_error + grid_layout" where
  "GridLayout md units cw ch =
     (let tu = max 1 units;
          cols = get_columns md tu;
          rws = (tu + cols - 1) div cols
      in case calculate_dimensions cw ch cols rws of
           Inl e \<Rightarrow> Inl e
         | Inr (cell, gp, gw, gh, sx, sy) \<Rightarrow>
             Inr \<lparr>mode = md, total_units = tu, canvas_width = cw, canvas_height = ch,
                  columns = cols, rows = rws, cell_size = cell, gap = gp,
                  grid_width = gw, grid_height = gh, start_x = sx, start_y = sy\<rparr>)"

section \<open>The lock file\<close>

text \<open>
  The state of the lock is the content of the file \<^verbatim>\<open>.life_calendar.lock\<close>, \<open>None\<close>
  when the file does not exist. What the operating system and the library answer
  during one call is given by an environment: whether the marker can be read, what
  \<^verbatim>\<open>int(...)\<close> makes of its text (\<open>None\<close> for \<^verbatim>\<open>ValueError\<close>), the platform and its
  liveness probe, whether each \<^verbatim>\<open>os.remove\<close> succeeds, the process id, and the marker
  that another process may create between the check and the exclusive creation.
\<close>

datatype open_result = Handle int | OpenRaises

record lock_env =
  read_ok :: bool
  parse_pid :: "string \<Rightarrow> int option"
  is_windows :: bool
  open_process :: "int \<Rightarrow> open_result"
  kill_ok :: "int \<Rightarrow> bool"
  remove_stale_ok :: bool
  remove_corrupt_ok :: bool
  racer :: "string option"
  getpid :: int
  release_remove_ok :: bool
  generate_success :: bool
  set_success :: bool

text \<open>
  \<^verbatim>\<open>_is_process_running\<close>: on Windows \<^verbatim>\<open>OpenProcess\<close> giving a non-null handle, elsewhere
  \<^verbatim>\<open>os.kill(pid, 0)\<close> returning without \<^verbatim>\<open>OSError\<close>.
\<close>

definition is_process_running :: "lock_env \<Rightarrow> int \<Rightarrow> bool" where
  "is_process_running env pid =
     (if is_windows env
      then (case open_process env pid of Handle h \<Rightarrow> h \<noteq> 0 | OpenRaises \<Rightarrow> False)
      else kill_ok env pid)"

text \<open>\<^verbatim>\<open>str(n)\<close> for an \<^verbatim>\<open>int\<close>.\<close>

definition digit_char :: "nat \<Rightarrow> char" where
  "digit_char d = char_of (48 + d)"

fun digits10 :: "nat \<Rightarrow> string" where
  "digits10 n = (if n < 10 then [digit_char n] else digits10 (n div 10) @ [digit_char (n mod 10)])"

declare digits10.simps [simp del]

definition str_of_int :: "int \<Rightarrow> string" where
  "str_of_int i = (if i < 0 then CHR ''-'' # digits10 (nat (- i)) else digits10 (nat i))"

text \<open>
  The handler \<^verbatim>\<open>except (ValueError, IOError)\<close> of \<^verbatim>\<open>acquire_lock\<close>: the marker is
  removed, a failure of the removal is ignored.
\<close>

definition remove_corrupted :: "lock_env \<Rightarrow> string option \<Rightarrow> string option" where
  "remove_corrupted env lock = (if remove_corrupt_ok env then None else lock)"

text \<open>
  The first half of \<^verbatim>\<open>acquire_lock\<close>, the check for an existing lock: \<open>Inl\<close> when it
  raises, otherwise the state of the marker after it.
\<close>

definition check_existing_lock :: "lock_env \<Rightarrow> string option \<Rightarrow> py_error + string option" where
  "check_existing_lock env lock =
     (case lock of
        None \<Rightarrow> Inr None
      | Some content \<Rightarrow>
          if \<not> read_ok env then Inr (remove_corrupted env lock)
          else (case parse_pid env content of
                  None \<Rightarrow> Inr (remove_corrupted env lock)
                | Some old_pid \<Rightarrow>
                    if is_process_running env old_pid then Inl RuntimeError
                    else if remove_stale_ok env then Inr None
                    else Inr (remove_corrupted env lock)))"

text \<open>
  \<^verbatim>\<open>acquire_lock\<close>: the check, then \<^verbatim>\<open>os.open(LOCK_FILE, O_CREAT | O_EXCL | O_WRONLY)\<close>,
  which raises \<^verbatim>\<open>FileExistsError\<close>, turned into \<^verbatim>\<open>RuntimeError\<close>, when the marker exists.
  Between the two another process may have created the marker.
\<close>

definition acquire_lock :: "lock_env \<Rightarrow> string option \<Rightarrow> (py_error + unit) \<times> string option" where
  "acquire_lock env lock =
     (case check_existing_lock env lock of
        Inl e \<Rightarrow> (Inl e, lock)
      | Inr lock1 \<Rightarrow>
          (let lock2 = (case lock1 of None \<Rightarrow> racer env | Some c \<Rightarrow> Some c)
           in case lock2 of
                None \<Rightarrow> (Inr (), Some (str_of_int (getpid env)))
              | Some c \<Rightarrow> (Inl RuntimeError, lock2)))"

text \<open>\<^verbatim>\<open>release_lock\<close>: the marker is removed when it exists; no failure is raised.\<close>

definition release_lock :: "lock_env \<Rightarrow> string option \<Rightarrow> string option" where
  "release_lock env lock =
     (case lock of None \<Rightarrow> None
      | Some c \<Rightarrow> if release_remove_ok env then None else lock)"

text \<open>
  \<^verbatim>\<open>WallpaperEngine.run_auto\<close>:
  \<^verbatim>\<open>
  try:
      acquire_lock()
      success, message = self.generate_wallpaper()
      if not success: return False
      success, message = self.set_wallpaper()
      if not success: return False
      return True
  except Exception:
      return False
  finally:
      release_lock()
  \<close>
  \<^verbatim>\<open>generate_wallpaper\<close> and \<^verbatim>\<open>set_wallpaper\<close> catch their own exceptions and return a
  success flag; they do not touch the lock file, so only their flags appear here.
\<close>

definition run_auto :: "lock_env \<Rightarrow> string option \<Rightarrow> bool \<times> string option" where
  "run_auto env lock =
     (case acquire_lock env lock of
        (Inl e, lock1) \<Rightarrow> (False, release_lock env lock1)
      | (Inr u, lock1) \<Rightarrow>
          if \<not> generate_success env then (False, release_lock env lock1)
          else if \<not> set_success env then (False, release_lock env lock1)
          else (True, release_lock env lock1))"

section \<open>Saving the image\<close>

text \<open>
  The files are a map from paths to contents. \<^verbatim>\<open>WallpaperRenderer.save\<close>:
  \<^verbatim>\<open>
  temp_path = path + ".tmp"
  try:
      self.img.save(temp_path, 'PNG', optimize=True)
      os.replace(temp_path, path)
      if not os.path.exists(path):
          raise RuntimeError("Wallpaper file not created")
  except Exception:
      try:
          if os.path.exists(temp_path):
              os.unlink(temp_path)
      except OSError:
          pass
      raise
  \<close>
  The environment says how the library and the system calls end: \<^verbatim>\<open>img.save\<close> writes
  the whole image, or raises and leaves the temporary path in some state (absent, or a
  partial file); \<^verbatim>\<open>os.replace\<close> and \<^verbatim>\<open>os.unlink\<close> succeed or raise.
\<close>

type_synonym files = "string \<rightharpoonup> string"

datatype write_outcome = Written | WriteFails py_error "string option"

record save_env =
  img_save :: write_outcome
  replace_error :: "py_error option"
  unlink_ok :: bool

text \<open>The body of the \<^verbatim>\<open>try\<close> block.\<close>

definition save_attempt :: "save_env \<Rightarrow> string \<Rightarrow> string \<Rightarrow> files \<Rightarrow> (py_error + unit) \<times> files" where
  "save_attempt env img path fs =
     (let temp_path = path @ ''.tmp''
      in case img_save env of
           WriteFails e left \<Rightarrow> (Inl e, fs(temp_path := left))
         | Written \<Rightarrow>
             (let fs1 = fs(temp_path \<mapsto> img)
              in case replace_error env of
                   Some e \<Rightarrow> (Inl e, fs1)
                 | None \<Rightarrow>
                     (let fs2 = (fs1(path := fs1 temp_path))(temp_path := None)
                      in if fs2 path = None then (Inl RuntimeError, fs2) else (Inr (), fs2))))"

definition save :: "save_env \<Rightarrow> string \<Rightarrow> string \<Rightarrow> files \<Rightarrow> (py_error + unit) \<times> files" where
  "save env img path fs =
     (let temp_path = path @ ''.tmp''
      in case save_attempt env img path fs of
           (Inr u, fs') \<Rightarrow> (Inr u, fs')
         | (Inl e, fs') \<Rightarrow>
             (Inl e, if fs' temp_path \<noteq> None \<and> unlink_ok env then fs'(temp_path := None) else fs'))"

section \<open>The configuration file\<close>

datatype json_value = JInt int | JStr string

type_synonym config = "string \<rightharpoonup> json_value"

text \<open>\<^verbatim>\<open>WallpaperEngine.DEFAULT_CONFIG\<close>.\<close>

definition DEFAULT_CONFIG :: config where
  "DEFAULT_CONFIG =
     [''mode'' \<mapsto> JStr ''life'', ''dob'' \<mapsto> JStr [], ''lifespan'' \<mapsto> JInt 90,
      ''goal_start'' \<mapsto> JStr [], ''goal_end'' \<mapsto> JStr [], ''goal_title'' \<mapsto> JStr [],
      ''goal_subtitle'' \<mapsto> JStr [], ''resolution_width'' \<mapsto> JInt 1920,
      ''resolution_height'' \<mapsto> JInt 1080, ''config_version'' \<mapsto> JInt 2]"

text \<open>
  The JSON library is a parameter: \<open>dumps\<close> is the text \<^verbatim>\<open>json.dump(cfg, f, indent=2)\<close>
  writes, \<open>loads\<close> what \<^verbatim>\<open>json.load\<close> returns for the text of a file (\<open>None\<close> for
  \<^verbatim>\<open>JSONDecodeError\<close>). The configuration is a JSON object of strings and integers.
\<close>

record json_lib =
  dumps :: "config \<Rightarrow> string"
  loads :: "string \<Rightarrow> config option"

text \<open>
  \<^verbatim>\<open>LifeCalendarApp.save_config\<close> on the files: the old file is copied to the backup,
  then the file is rewritten. When writing fails (\<^verbatim>\<open>OSError\<close>, shown in a message
  box) the file is left as the failed write left it.
\<close>

definition save_config :: "json_lib \<Rightarrow> write_outcome \<Rightarrow> string \<Rightarrow> config \<Rightarrow> files \<Rightarrow> files" where
  "save_config lib outcome config_file cfg fs =
     (let fs1 = (case fs config_file of
                   None \<Rightarrow> fs
                 | Some old \<Rightarrow> fs(config_file @ ''.bak'' \<mapsto> old))
      in case outcome of
           Written \<Rightarrow> fs1(config_file \<mapsto> dumps lib cfg)
         | WriteFails e left \<Rightarrow> fs1(config_file := left))"

text \<open>\<^verbatim>\<open>WallpaperEngine.load_config\<close>: the defaults, updated with the loaded object.\<close>

definition load_config :: "json_lib \<Rightarrow> string \<Rightarrow> files \<Rightarrow> py_error + config" where
  "load_config lib config_file fs =
     (case fs config_file of
        None \<Rightarrow> Inl FileNotFoundError
      | Some text \<Rightarrow>
          (case loads lib text of
             None \<Rightarrow> Inl ValueError
           | Some loaded \<Rightarrow> Inr (DEFAULT_CONFIG ++ loaded)))"

section \<open>Sample values\<close>

text \<open>
  Concrete inputs on which the theorems below are instantiated: a parser that knows a
  few date strings (as \<^verbatim>\<open>datetime.strptime\<close> parses them), and a current time.
\<close>

definition sample_strptime :: strptime where
  "sample_strptime s =
     (if s = ''1990-05-15''
        then Some \<lparr>dt_date = \<lparr>year = 1990, month = 5, day = 15\<rparr>, dt_micros = 0\<rparr>
      else if s = ''2024-05-16''
        then Some \<lparr>dt_date = \<lparr>year = 2024, month = 5, day = 16\<rparr>, dt_micros = 0\<rparr>
      else if s = ''2024-01-01''
        then Some \<lparr>dt_date = \<lparr>year = 2024, month = 1, day = 1\<rparr>, dt_micros = 0\<rparr>
      else if s = ''2024-12-31''
        then Some \<lparr>dt_date = \<lparr>year = 2024, month = 12, day = 31\<rparr>, dt_micros = 0\<rparr>
      else None)"

definition sample_now :: datetime where
  "sample_now = \<lparr>dt_date = \<lparr>year = 2024, month = 5, day = 15\<rparr>, dt_micros = 43200000000\<rparr>"

section \<open>Properties of the calendar\<close>

lemma days_before_month_mono:
  "1 \<le> m \<Longrightarrow> m < m' \<Longrightarrow> m' \<le> 12 \<Longrightarrow>
     days_before_month y m + days_in_month y m \<le> days_before_month y m'"
  unfolding days_before_month_def days_in_month_def
  by (cases "isleap y") (simp_all, presburger+)

lemma div_step:
  fixes y n :: int
  assumes "0 < n"
  shows "y div n = (y - 1) div n + (if y mod n = 0 then 1 else 0)"
proof (cases "y mod n = 0")
  case True
  have "y = n * (y div n) + y mod n" by simp
  with True have "y - 1 = n * (y div n - 1) + (n - 1)" by (simp add: algebra_simps)
  then have "(y - 1) div n = y div n - 1"
    by (rule int_div_pos_eq) (use assms in simp_all)
  then show ?thesis using True by simp
next
  case False
  have r: "0 \<le> y mod n" "y mod n < n" using assms by simp_all
  have "y = n * (y div n) + y mod n" by simp
  then have "y - 1 = n * (y div n) + (y mod n - 1)" by simp
  then have "(y - 1) div n = y div n"
    by (rule int_div_pos_eq) (use r False in simp_all)
  then show ?thesis using False by simp
qed

lemma mod_0_trans:
  fixes y :: int
  assumes "a dvd b" "y mod b = 0"
  shows "y mod a = 0"
proof -
  from assms(2) have "b dvd y" by (simp add: mod_eq_0_iff_dvd)
  with assms(1) have "a dvd y" by (rule dvd_trans)
  then show ?thesis by (simp add: mod_eq_0_iff_dvd)
qed

lemma leap_count:
  fixes b4 b100 b400 :: bool
  assumes "b100 \<Longrightarrow> b4" "b400 \<Longrightarrow> b100"
  shows "(if b4 then 1 else 0) - (if b100 then 1 else 0) + (if b400 then 1 else (0::int))
           = (if b4 \<and> (\<not> b100 \<or> b400) then 1 else 0)"
  using assms by (cases b4; cases b100; cases b400) simp_all

lemma year_sum:
  fixes q4 q100 q400 c :: int
  shows "y * 365 + (q4 + c4) - (q100 + c100) + (q400 + c400)
     = ((y - 1) * 365 + q4 - q100 + q400) + 365 + (c4 - c100 + c400)"
  by (simp add: algebra_simps)

lemma days_before_year_Suc:
  "days_before_year (y + 1) = days_before_year y + (if isleap y then 366 else 365)"
proof -
  have d4: "y div 4 = (y - 1) div 4 + (if y mod 4 = 0 then 1 else 0)"
    by (rule div_step) simp
  have d100: "y div 100 = (y - 1) div 100 + (if y mod 100 = 0 then 1 else 0)"
    by (rule div_step) simp
  have d400: "y div 400 = (y - 1) div 400 + (if y mod 400 = 0 then 1 else 0)"
    by (rule div_step) simp
  have m4: "y mod 100 = 0 \<Longrightarrow> y mod 4 = 0"
    by (rule mod_0_trans[of 4 100]) simp_all
  have m100: "y mod 400 = 0 \<Longrightarrow> y mod 100 = 0"
    by (rule mod_0_trans[of 100 400]) simp_all
  have "days_before_year (y + 1) = y * 365 + y div 4 - y div 100 + y div 400"
    by (simp add: days_before_year_def)
  also have "\<dots> = y * 365 + ((y - 1) div 4 + (if y mod 4 = 0 then 1 else 0))
       - ((y - 1) div 100 + (if y mod 100 = 0 then 1 else 0))
       + ((y - 1) div 400 + (if y mod 400 = 0 then 1 else 0))"
    using d4 d100 d400 by (simp only:)
  also have "\<dots> = days_before_year y + 365 +
      ((if y mod 4 = 0 then 1 else 0) - (if y mod 100 = 0 then 1 else 0) + (if y mod 400 = 0 then 1 else 0))"
    unfolding days_before_year_def Let_def by (rule year_sum)
  also have "\<dots> = days_before_year y + 365 + (if isleap y then 1 else 0)"
    unfolding isleap_def by (simp only: leap_count[OF m4 m100])
  also have "\<dots> = days_before_year y + (if isleap y then 366 else 365)"
    by simp
  finally show ?thesis .
qed


lemma days_before_year_step_le: "days_before_year y \<le> days_before_year (y + 1)"
  unfolding days_before_year_Suc by simp

lemma days_before_year_mono_nat:
  "days_before_year y + (if isleap y then 366 else 365) \<le> days_before_year (y + 1 + int k)"
proof (induction k)
  case 0
  then show ?case by (simp add: days_before_year_Suc)
next
  case (Suc k)
  have "y + 1 + int (Suc k) = (y + 1 + int k) + 1" by simp
  then have "days_before_year (y + 1 + int k) \<le> days_before_year (y + 1 + int (Suc k))"
    using days_before_year_step_le[of "y + 1 + int k"] by simp
  with Suc.IH show ?case by (rule order_trans)
qed

lemma days_before_year_mono:
  assumes "y < y'"
  shows "days_before_year y + (if isleap y then 366 else 365) \<le> days_before_year y'"
proof -
  have "y' = y + 1 + int (nat (y' - y - 1))" using assms by simp
  then show ?thesis using days_before_year_mono_nat[of y "nat (y' - y - 1)"] by simp
qed

lemma month_cases:
  "1 \<le> m \<Longrightarrow> m \<le> 12 \<Longrightarrow>
   m = 1 \<or> m = 2 \<or> m = 3 \<or> m = 4 \<or> m = 5 \<or> m = 6 \<or> m = 7 \<or> m = 8 \<or> m = 9
     \<or> m = 10 \<or> m = 11 \<or> m = (12::int)"
  by arith

lemma days_in_year_bound:
  assumes "1 \<le> m" "m \<le> 12"
  shows "days_before_month y m + days_in_month y m \<le> (if isleap y then 366 else 365)"
  using month_cases[OF assms]
  by (elim disjE) (simp_all add: days_before_month_def days_in_month_def)

lemma days_before_month_nonneg: "0 \<le> days_before_month y m"
  by (simp add: days_before_month_def)

lemma toordinal_mono:
  assumes "valid_date a" "valid_date b" "date_less a b"
  shows "toordinal a < toordinal b"
proof -
  have va: "1 \<le> month a" "month a \<le> 12" "1 \<le> day a" "day a \<le> days_in_month (year a) (month a)"
    using assms(1) by (simp_all add: valid_date_def)
  have vb: "1 \<le> month b" "month b \<le> 12" "1 \<le> day b"
    using assms(2) by (simp_all add: valid_date_def)
  consider (y) "year a < year b"
    | (m) "year a = year b" "month a < month b"
    | (d) "year a = year b" "month a = month b" "day a < day b"
    using assms(3) unfolding date_less_def by blast
  then show ?thesis
  proof cases
    case y
    have "days_before_month (year a) (month a) + day a \<le> (if isleap (year a) then 366 else 365)"
      using days_in_year_bound[OF va(1,2), of "year a"] va(4) by linarith
    then have "toordinal a \<le> days_before_year (year b)"
      using days_before_year_mono[OF y] unfolding toordinal_def by linarith
    then show ?thesis
      using days_before_month_nonneg[of "year b" "month b"] vb(3)
      unfolding toordinal_def[of b] by linarith
  next
    case m
    have "days_before_month (year a) (month a) + days_in_month (year a) (month a)
            \<le> days_before_month (year a) (month b)"
      using va(1) m(2) vb(2) by (rule days_before_month_mono)
    then show ?thesis using va(4) vb(3) m(1) unfolding toordinal_def by simp
  next
    case d
    then show ?thesis by (simp add: toordinal_def)
  qed
qed

lemma date_trichotomy:
  "date_less a b \<or> date_less b a \<or> (year a = year b \<and> month a = month b \<and> day a = day b)"
  unfolding date_less_def by auto

lemma toordinal_eq:
  "year a = year b \<Longrightarrow> month a = month b \<Longrightarrow> day a = day b \<Longrightarrow> toordinal a = toordinal b"
  by (simp add: toordinal_def)

lemma toordinal_less_iff:
  assumes "valid_date a" "valid_date b"
  shows "toordinal a < toordinal b \<longleftrightarrow> date_less a b"
proof
  assume lt: "toordinal a < toordinal b"
  show "date_less a b"
  proof (rule ccontr)
    assume n: "\<not> date_less a b"
    from date_trichotomy[of a b] n
    have "date_less b a \<or> (year a = year b \<and> month a = month b \<and> day a = day b)" by blast
    then show False
    proof
      assume "date_less b a"
      from toordinal_mono[OF assms(2,1) this] lt show False by simp
    next
      assume "year a = year b \<and> month a = month b \<and> day a = day b"
      then have "toordinal a = toordinal b" by (intro toordinal_eq) simp_all
      with lt show False by simp
    qed
  qed
next
  assume "date_less a b"
  then show "toordinal a < toordinal b" by (rule toordinal_mono[OF assms])
qed

lemma date_le_iff_not_less: "date_le a b \<longleftrightarrow> \<not> date_less b a"
  unfolding date_le_def date_less_def by linarith

lemma toordinal_le_iff:
  assumes "valid_date a" "valid_date b"
  shows "toordinal a \<le> toordinal b \<longleftrightarrow> date_le a b"
proof -
  have "toordinal a \<le> toordinal b \<longleftrightarrow> \<not> toordinal b < toordinal a" by linarith
  then show ?thesis
    using toordinal_less_iff[OF assms(2,1)] by (simp only: date_le_iff_not_less)
qed

section \<open>Properties of the float model\<close>

lemma bitlen_One: "bitlen 1 = 1"
  by (simp add: bitlen_alt_def)

lemma bitlen_Bit0: "bitlen (numeral (Num.Bit0 n)) = bitlen (numeral n) + 1"
proof -
  have "bitlen (numeral (Num.Bit0 n)) = bitlen (numeral (Num.Bit0 n) div 2) + 1"
    by (subst compute_bitlen) (simp only: zero_less_numeral if_True)
  also have "(numeral (Num.Bit0 n) :: int) div 2 = numeral n" by simp
  finally show ?thesis .
qed

lemma bitlen_Bit1: "bitlen (numeral (Num.Bit1 n)) = bitlen (numeral n) + 1"
proof -
  have "bitlen (numeral (Num.Bit1 n)) = bitlen (numeral (Num.Bit1 n) div 2) + 1"
    by (subst compute_bitlen) (simp only: zero_less_numeral if_True)
  also have "(numeral (Num.Bit1 n) :: int) div 2 = numeral n" by simp
  finally show ?thesis .
qed

lemmas fl_eval = fl_def ulp_exp_def ilog2_def round_half_even_def pow2_def Let_def
  bitlen_One bitlen_Bit0 bitlen_Bit1

lemma pow2_powi: "pow2 e = 2 powi e"
proof (cases "0 \<le> e")
  case True
  then show ?thesis by (simp add: pow2_def power_int_def)
next
  case False
  have "(1::real) / 2 ^ nat (- e) = inverse 2 ^ nat (- e)"
    by (simp add: power_one_over)
  with False show ?thesis by (simp only: pow2_def power_int_def if_False)
qed

lemma pow2_pos: "0 < pow2 e"
  by (simp add: pow2_powi)

lemma pow2_add: "pow2 (a + b) = pow2 a * pow2 b"
  by (simp add: pow2_powi power_int_add)

lemma pow2_strict_mono: "a < b \<Longrightarrow> pow2 a < pow2 b"
  by (simp add: pow2_powi power_int_strict_increasing)

lemma pow2_mono: "a \<le> b \<Longrightarrow> pow2 a \<le> pow2 b"
  by (simp add: pow2_powi power_int_increasing)

lemma pow2_nat: "0 \<le> e \<Longrightarrow> pow2 e = 2 ^ nat e"
  by (simp add: pow2_def)

lemma pow2_half: "pow2 e / 2 = pow2 (e - 1)"
proof -
  have "pow2 e = pow2 ((e - 1) + 1)" by simp
  also have "\<dots> = pow2 (e - 1) * pow2 1" by (rule pow2_add)
  finally show ?thesis by (simp add: pow2_def)
qed

lemma ilog2_bounds_ge1:
  assumes "1 \<le> x"
  shows "pow2 (ilog2 x) \<le> x \<and> x < pow2 (ilog2 x + 1)"
proof -
  define n where "n = \<lfloor>x\<rfloor>"
  have n1: "1 \<le> n" using assms by (simp add: n_def)
  then have n0: "0 < n" by simp
  have b1: "1 \<le> bitlen n" using n0 by (simp add: bitlen_alt_def)
  from bitlen_bounds[OF n0]
  have lo: "2 ^ nat (bitlen n - 1) \<le> n" and hi: "n < 2 ^ nat (bitlen n)" by simp_all
  have il: "ilog2 x = bitlen n - 1" using assms by (simp add: ilog2_def n_def)
  have "pow2 (bitlen n - 1) = of_int (2 ^ nat (bitlen n - 1))"
    using b1 by (simp add: pow2_nat)
  also have "\<dots> \<le> of_int n" using lo by (simp only: of_int_le_iff)
  also have "\<dots> \<le> x" by (simp add: n_def)
  finally have A: "pow2 (ilog2 x) \<le> x" by (simp add: il)
  have "n + 1 \<le> 2 ^ nat (bitlen n)" using hi by simp
  then have "of_int (n + 1) \<le> (of_int (2 ^ nat (bitlen n)) :: real)" by (simp only: of_int_le_iff)
  moreover have "x < of_int (n + 1)" by (simp add: n_def)
  ultimately have "x < of_int (2 ^ nat (bitlen n))" by linarith
  also have "\<dots> = pow2 (bitlen n)" using b1 by (simp add: pow2_nat)
  finally have B: "x < pow2 (ilog2 x + 1)" by (simp add: il)
  from A B show ?thesis ..
qed

lemma ilog2_bounds_lt1:
  assumes "0 < x" "x < 1"
  shows "pow2 (ilog2 x) \<le> x \<and> x < pow2 (ilog2 x + 1)"
proof -
  define y where "y = 1 / x"
  define m where "m = \<lceil>y\<rceil> - 1"
  have y1: "1 < y" using assms by (simp add: y_def)
  have xy: "x = 1 / y" by (simp add: y_def)
  have y0: "0 < y" using y1 by simp
  have "2 \<le> \<lceil>y\<rceil>" using y1 by (simp add: le_ceiling_iff)
  then have m0: "0 < m" by (simp add: m_def)
  have mlt: "of_int m < y" by (simp add: m_def) linarith
  have mge: "y \<le> of_int m + 1" by (simp add: m_def)
  have b1: "1 \<le> bitlen m" using m0 by (simp add: bitlen_alt_def)
  from bitlen_bounds[OF m0]
  have lo: "2 ^ nat (bitlen m - 1) \<le> m" and hi: "m < 2 ^ nat (bitlen m)" by simp_all
  have il: "ilog2 x = - bitlen m" using assms by (simp add: ilog2_def m_def y_def)
  have "m + 1 \<le> 2 ^ nat (bitlen m)" using hi by simp
  then have "of_int (m + 1) \<le> (of_int (2 ^ nat (bitlen m)) :: real)" by (simp only: of_int_le_iff)
  with mge have yle: "y \<le> 2 ^ nat (bitlen m)" by simp
  have "pow2 (- bitlen m) = 1 / 2 ^ nat (bitlen m)" using b1 by (simp add: pow2_def)
  also have "\<dots> \<le> 1 / y" using yle y0 by (simp add: frac_le)
  finally have "pow2 (- bitlen m) \<le> x" by (simp only: xy)
  then have A: "pow2 (ilog2 x) \<le> x" by (simp only: il)
  have "(2::real) ^ nat (bitlen m - 1) \<le> of_int m"
    using lo of_int_le_iff[of "2 ^ nat (bitlen m - 1)" m, where ?'a = real] by simp
  with mlt have ygt: "2 ^ nat (bitlen m - 1) < y" by linarith
  have "1 / y < 1 / 2 ^ nat (bitlen m - 1)" using ygt by (simp add: frac_less2)
  also have "\<dots> = pow2 (- bitlen m + 1)"
  proof (cases "bitlen m = 1")
    case True then show ?thesis by (simp add: pow2_def)
  next
    case False
    with b1 have "- bitlen m + 1 < 0" by simp
    moreover have "nat (- (- bitlen m + 1)) = nat (bitlen m - 1)" by simp
    ultimately show ?thesis by (simp add: pow2_def)
  qed
  finally have "x < pow2 (- bitlen m + 1)" by (simp only: xy)
  then have B: "x < pow2 (ilog2 x + 1)" by (simp only: il)
  from A B show ?thesis ..
qed

lemma ilog2_bounds:
  assumes "0 < x"
  shows "pow2 (ilog2 x) \<le> x" and "x < pow2 (ilog2 x + 1)"
  using ilog2_bounds_ge1[of x] ilog2_bounds_lt1[of x] assms by (cases "1 \<le> x"; simp)+

lemma ilog2_less:
  assumes "0 < x" "x < pow2 k"
  shows "ilog2 x < k"
proof (rule ccontr)
  assume "\<not> ilog2 x < k"
  then have "pow2 k \<le> pow2 (ilog2 x)" by (simp add: pow2_mono)
  with ilog2_bounds(1)[OF assms(1)] assms(2) show False by simp
qed

lemma ilog2_ge:
  assumes "0 < x" "pow2 k \<le> x"
  shows "k \<le> ilog2 x"
proof (rule ccontr)
  assume "\<not> k \<le> ilog2 x"
  then have "pow2 (ilog2 x + 1) \<le> pow2 k" by (simp add: pow2_mono)
  with ilog2_bounds(2)[OF assms(1)] assms(2) show False by simp
qed

lemma round_half_even_of_int: "round_half_even (of_int z) = z"
  by (simp add: round_half_even_def)

lemma round_half_even_error: "\<bar>of_int (round_half_even x) - x\<bar> \<le> 1 / 2"
proof -
  have "of_int \<lfloor>x\<rfloor> \<le> x" "x < of_int \<lfloor>x\<rfloor> + 1" by linarith+
  then show ?thesis by (auto simp: round_half_even_def Let_def)
qed

lemma round_half_even_mono:
  assumes "x \<le> y"
  shows "round_half_even x \<le> round_half_even y"
proof (cases "\<lfloor>x\<rfloor> = \<lfloor>y\<rfloor>")
  case True
  then show ?thesis using assms by (auto simp: round_half_even_def Let_def)
next
  case False
  then have "\<lfloor>x\<rfloor> + 1 \<le> \<lfloor>y\<rfloor>" using assms floor_mono[of x y] by linarith
  moreover have "round_half_even x \<le> \<lfloor>x\<rfloor> + 1" by (auto simp: round_half_even_def Let_def)
  moreover have "\<lfloor>y\<rfloor> \<le> round_half_even y" by (auto simp: round_half_even_def Let_def)
  ultimately show ?thesis by linarith
qed

lemma fl_pos_eq:
  "0 < x \<Longrightarrow> fl x = of_int (round_half_even (x / pow2 (ulp_exp x))) * pow2 (ulp_exp x)"
  by (simp add: fl_def Let_def)

lemma fl_error:
  assumes "0 < x"
  shows "\<bar>fl x - x\<bar> \<le> pow2 (ulp_exp x) / 2"
proof -
  define p where "p = pow2 (ulp_exp x)"
  have p0: "0 < p" by (simp add: p_def pow2_pos)
  define z where "z = x / p"
  have x: "x = z * p" using p0 by (simp add: z_def)
  have fx: "fl x = of_int (round_half_even z) * p"
    using assms by (simp add: fl_pos_eq p_def z_def)
  have "fl x - x = of_int (round_half_even z) * p - z * p"
    by (simp only: fx x[symmetric])
  then have "fl x - x = (of_int (round_half_even z) - z) * p"
    by (simp add: algebra_simps)
  then have "\<bar>fl x - x\<bar> = \<bar>of_int (round_half_even z) - z\<bar> * p"
    using p0 by (simp add: abs_mult)
  also have "\<dots> \<le> (1 / 2) * p"
    using round_half_even_error[of z] p0 by (intro mult_right_mono) simp_all
  finally show ?thesis by (simp add: p_def)
qed

lemma ulp_exp_le:
  assumes "0 < x" "x < pow2 k" "- 1021 \<le> k"
  shows "ulp_exp x \<le> k - 53"
  using ilog2_less[OF assms(1,2)] assms(3) by (simp add: ulp_exp_def)

lemma fl_error_bound:
  assumes "0 < x" "x < pow2 k" "- 1021 \<le> k"
  shows "\<bar>fl x - x\<bar> \<le> pow2 (k - 54)"
proof -
  have "pow2 (ulp_exp x) / 2 = pow2 (ulp_exp x - 1)" by (rule pow2_half)
  also have "\<dots> \<le> pow2 (k - 54)"
    using ulp_exp_le[OF assms] by (intro pow2_mono) simp
  finally show ?thesis using fl_error[OF assms(1)] by linarith
qed

lemma fl_nonneg: "0 \<le> x \<Longrightarrow> 0 \<le> fl x"
proof (cases "x = 0")
  case True then show ?thesis by (simp add: fl_def)
next
  case False
  assume "0 \<le> x"
  with False have x: "0 < x" by simp
  have "0 \<le> x / pow2 (ulp_exp x)" using x pow2_pos[of "ulp_exp x"] by simp
  then have "round_half_even 0 \<le> round_half_even (x / pow2 (ulp_exp x))"
    by (rule round_half_even_mono)
  then have "0 \<le> round_half_even (x / pow2 (ulp_exp x))"
    using round_half_even_of_int[of 0] by simp
  then show ?thesis using x pow2_pos[of "ulp_exp x"] by (simp add: fl_pos_eq)
qed


lemma fl_minus: "fl (- x) = - fl x"
  by (simp add: fl_def Let_def sgn_minus)

lemma fl_of_int_pos:
  assumes "0 < n" "n \<le> 2 ^ 53"
  shows "fl (of_int n) = of_int n"
proof -
  define x :: real where "x = of_int n"
  have x0: "0 < x" using assms(1) by (simp add: x_def)
  have x1: "1 \<le> x" using assms(1) by (simp add: x_def)
  have xle: "x \<le> 2 ^ 53"
    using assms(2) of_int_le_iff[of n "2 ^ 53", where ?'a = real] by (simp add: x_def)
  define k where "k = ilog2 x"
  have "pow2 0 \<le> x" using x1 by (simp add: pow2_def)
  then have k0: "0 \<le> k" unfolding k_def using x0 by (intro ilog2_ge)
  have "x < pow2 54" using xle by (simp add: pow2_def)
  then have k53: "k < 54" unfolding k_def using x0 by (intro ilog2_less)
  have e: "ulp_exp x = k - 52" using k0 by (simp add: ulp_exp_def k_def)
  show ?thesis
  proof (cases "k \<le> 52")
    case True
    define j where "j = nat (52 - k)"
    have p: "pow2 (k - 52) = 1 / 2 ^ j"
    proof (cases "k = 52")
      case True then show ?thesis by (simp add: pow2_def j_def)
    next
      case False
      with \<open>k \<le> 52\<close> have "k - 52 < 0" by simp
      moreover have "nat (- (k - 52)) = j" by (simp add: j_def)
      ultimately show ?thesis by (simp add: pow2_def)
    qed
    have "x / pow2 (k - 52) = of_int (n * 2 ^ j)" by (simp add: p x_def)
    then have "round_half_even (x / pow2 (k - 52)) = n * 2 ^ j"
      by (simp only: round_half_even_of_int)
    then have "fl x = of_int (n * 2 ^ j) * pow2 (k - 52)"
      using x0 by (simp only: fl_pos_eq e)
    also have "\<dots> = x" by (simp add: p x_def)
    finally show ?thesis by (simp add: x_def)
  next
    case False
    with k53 have "k = 53" by simp
    then have "pow2 53 \<le> x" using ilog2_bounds(1)[OF x0] by (simp add: k_def)
    then have "x = 2 ^ 53" using xle by (simp add: pow2_def)
    then have "x / pow2 1 = of_int (2 ^ 52)" by (simp add: pow2_def)
    then have "round_half_even (x / pow2 1) = 2 ^ 52"
      by (simp only: round_half_even_of_int)
    then have "fl x = of_int (2 ^ 52) * pow2 1"
      using x0 e \<open>k = 53\<close> by (simp add: fl_pos_eq)
    also have "\<dots> = x" using \<open>x = 2 ^ 53\<close> by (simp add: pow2_def)
    finally show ?thesis by (simp add: x_def)
  qed
qed

lemma fl_of_int:
  assumes "\<bar>n\<bar> \<le> 2 ^ 53"
  shows "fl (of_int n) = of_int n"
proof -
  consider "n = 0" | "0 < n" | "n < 0" by linarith
  then show ?thesis
  proof cases
    case 1 then show ?thesis by (simp add: fl_def)
  next
    case 2 then show ?thesis using assms by (intro fl_of_int_pos) simp_all
  next
    case 3
    then have "fl (of_int (- n)) = of_int (- n)" using assms by (intro fl_of_int_pos) simp_all
    then show ?thesis using fl_minus[of "of_int n"] by simp
  qed
qed

lemma float_of_int_exact:
  assumes "\<bar>n\<bar> \<le> 2 ^ 53"
  shows "float_of_int n = Inr (of_int n)"
proof -
  have "\<bar>of_int n :: real\<bar> \<le> 2 ^ 53"
    using assms of_int_le_iff[of "\<bar>n\<bar>" "2 ^ 53", where ?'a = real] by simp
  moreover have "(2::real) ^ 53 < 2 ^ 1024" by (rule power_strict_increasing) simp_all
  ultimately have "\<not> 2 ^ 1024 \<le> \<bar>of_int n :: real\<bar>" by linarith
  then show ?thesis by (simp add: float_of_int_def fl_of_int[OF assms] Let_def)
qed

lemma float_365_2425: "fl (3652425 / 10000) = 6425414011327611 / 17592186044416"
  by (simp add: fl_eval)

lemma lifespan_days_not_whole:
  fixes L :: int
  assumes "1 \<le> L" "L \<le> 150"
  shows "(L * 146097) mod 400 \<noteq> 0"
proof
  assume "(L * 146097) mod 400 = 0"
  then obtain m where m: "L * 146097 = 400 * m" by (auto simp: mod_eq_0_iff_dvd)
  have "L = 33 * (L * 146097) - 400 * (12053 * L)" by simp
  also have "\<dots> = 400 * (33 * m - 12053 * L)" by (simp only: m) (simp add: algebra_simps)
  finally have "400 dvd L" by (metis dvd_triv_left)
  then have "400 \<le> L" using assms(1) by (intro zdvd_imp_le) simp_all
  with assms(2) show False by simp
qed


lemma life_total_days:
  assumes "1 \<le> L" "L \<le> 150"
  shows "int_of_float (fl (of_int L * (6425414011327611 / 17592186044416))) = L * 146097 div 400"
proof -
  define c :: real where "c = 6425414011327611 / 17592186044416"
  define x where "x = of_int L * c"
  define E :: real where "E = of_int (L * 146097) / 400"
  define q where "q = L * 146097 div 400"
  define r where "r = (L * 146097) mod 400"
  have L1: "(1::real) \<le> of_int L" and L150: "of_int L \<le> (150::real)"
    using assms by simp_all
  have c_lo: "365 < c" and c_hi: "c < 366" by (simp_all add: c_def)
  have x0: "0 < x" unfolding x_def using L1 c_lo by (intro mult_pos_pos) simp_all
  have "x \<le> 150 * c" unfolding x_def using L150 c_lo by (intro mult_right_mono) simp_all
  also have "\<dots> < pow2 16" by (simp add: c_def pow2_def)
  finally have x16: "x < pow2 16" .
  have err1: "\<bar>fl x - x\<bar> \<le> pow2 (- 38)"
    using fl_error_bound[OF x0 x16] by simp
  define y :: real where "y = 3652425 / 10000"
  have delta: "\<bar>c - y\<bar> \<le> 1 / 2 ^ 45" by (simp add: c_def y_def)
  have E_eq: "E = of_int L * y" by (simp add: E_def y_def)
  have "x - E = of_int L * (c - y)" unfolding x_def E_eq by (simp add: algebra_simps)
  then have "\<bar>x - E\<bar> = \<bar>of_int L\<bar> * \<bar>c - y\<bar>" by (simp only: abs_mult)
  also have "\<dots> = of_int L * \<bar>c - y\<bar>" using L1 by simp
  also have "\<dots> \<le> 150 * (1 / 2 ^ 45)"
    using L1 L150 delta by (intro mult_mono) simp_all
  finally have err2: "\<bar>x - E\<bar> \<le> 150 * (1 / 2 ^ 45)" .
  have small: "pow2 (- 38) + 150 * (1 / 2 ^ 45) < (1::real) / 400" by (simp add: pow2_def)
  have near: "\<bar>fl x - E\<bar> < 1 / 400" using err1 err2 small by linarith
  have r_ne: "r \<noteq> 0" unfolding r_def using assms by (rule lifespan_days_not_whole)
  have r_bounds: "0 \<le> r" "r < 400" by (simp_all add: r_def)
  have r1: "1 \<le> r" "r \<le> 399" using r_ne r_bounds by simp_all
  have "L * 146097 = 400 * q + r" by (simp add: q_def r_def)
  then have "(of_int (L * 146097) :: real) = 400 * of_int q + of_int r"
    by (metis of_int_add of_int_mult of_int_numeral)
  then have E_qr: "E = of_int q + of_int r / 400" by (simp add: E_def)
  define s :: real where "s = of_int r / 400"
  have rr: "(1::real) \<le> of_int r" "of_int r \<le> (399::real)" using r1 by simp_all
  have s_lo: "1 / 400 \<le> s" unfolding s_def using rr(1) by (intro divide_right_mono) simp_all
  have s_hi: "s \<le> 399 / 400" unfolding s_def using rr(2) by (intro divide_right_mono) simp_all
  have E_qs: "E = of_int q + s" using E_qr by (simp only: s_def)
  have lo: "of_int q < fl x" using near E_qs s_lo by linarith
  have hi: "fl x < of_int q + 1" using near E_qs s_hi by linarith
  have "\<lfloor>fl x\<rfloor> = q" using lo hi by (intro floor_unique) simp_all
  moreover have "0 \<le> fl x" using x0 by (intro fl_nonneg) simp
  ultimately show ?thesis by (simp add: int_of_float_def x_def c_def q_def)
qed

lemma life_weeks_formula:
  fixes L :: int
  shows "(L * 146097 div 400) div 7 = \<lfloor>of_int L * (3652425 / 10000) / (7::real)\<rfloor>"
proof -
  have "of_int L * (3652425 / 10000) / (7::real) = of_int (L * 146097) / of_int 2800"
    by simp
  then have "\<lfloor>of_int L * (3652425 / 10000) / (7::real)\<rfloor> = (L * 146097) div 2800"
    by (simp only: floor_divide_of_int_eq)
  also have "\<dots> = (L * 146097 div 400) div 7"
    using zdiv_zmult2_eq[of 7 "L * 146097" 400] by simp
  finally show ?thesis by simp
qed

section \<open>The life calendar\<close>

lemma life_calculate_eq:
  assumes "1 \<le> lifespan lc" "lifespan lc \<le> 150"
  shows "life_calculate now lc =
           Inr (lifespan lc * 146097 div 400 div 7,
                min (days_between (dt_date now) (dt_date (dob lc)) div 7)
                    (lifespan lc * 146097 div 400 div 7))"
proof -
  have "\<bar>lifespan lc\<bar> \<le> 2 ^ 53" using assms by simp
  then have conv: "float_of_int (lifespan lc) = Inr (of_int (lifespan lc))"
    by (rule float_of_int_exact)
  have prod: "int_mul_float (lifespan lc) (fl (3652425 / 10000)) =
      Inr (fl (of_int (lifespan lc) * (6425414011327611 / 17592186044416)))"
    by (simp only: int_mul_float_def conv float_365_2425 sum.case)
  show ?thesis
    by (simp only: life_calculate_def prod sum.case Let_def life_total_days[OF assms])
qed

lemma LifeCalendarData_Some:
  assumes "strptime dob_str = Some birth"
  shows "LifeCalendarData strptime dob_str L = Inr \<lparr>dob = birth, lifespan = max 1 (min L 150)\<rparr>"
  using assms by (simp add: LifeCalendarData_def safe_date_def)

lemmas date_eval = toordinal_def days_between_def days_before_year_def days_before_month_def
  days_in_month_def isleap_def valid_date_def date_less_def date_le_def Let_def

text \<open>
  Claim C1. For a date of birth that parses, is a date of the calendar and is not after
  today, and a lifespan between 1 and 150, the object is constructed and
  \<^verbatim>\<open>calculate\<close> returns totalUnits = floor(lifespan * 365.2425 / 7) and
  filledUnits = min(floor(days lived / 7), totalUnits), with 0 <= filledUnits <= totalUnits.
\<close>

theorem life_calculate_spec:
  assumes "strptime dob_str = Some birth"
    and "valid_date (dt_date birth)" and "valid_date (dt_date now)"
    and "date_le (dt_date birth) (dt_date now)"
    and "1 \<le> L" and "L \<le> 150"
  shows "\<exists>lc total filled.
           LifeCalendarData strptime dob_str L = Inr lc \<and>
           life_calculate now lc = Inr (total, filled) \<and>
           total = \<lfloor>of_int L * (3652425 / 10000) / (7::real)\<rfloor> \<and>
           filled = min (days_between (dt_date now) (dt_date birth) div 7) total \<and>
           0 \<le> filled \<and> filled \<le> total"
proof -
  define lc where "lc = \<lparr>dob = birth, lifespan = max 1 (min L 150)\<rparr>"
  define total where "total = L * 146097 div 400 div 7"
  define filled where "filled = min (days_between (dt_date now) (dt_date birth) div 7) total"
  have ls: "lifespan lc = L" using assms(5,6) by (simp add: lc_def)
  have c: "LifeCalendarData strptime dob_str L = Inr lc"
    unfolding lc_def using assms(1) by (rule LifeCalendarData_Some)
  have r: "life_calculate now lc = Inr (total, filled)"
    using life_calculate_eq[of lc now] assms(5,6)
    by (simp add: ls total_def filled_def) (simp add: lc_def)
  have t: "total = \<lfloor>of_int L * (3652425 / 10000) / (7::real)\<rfloor>"
    unfolding total_def by (rule life_weeks_formula)
  have "toordinal (dt_date birth) \<le> toordinal (dt_date now)"
    using assms(2,3,4) by (simp add: toordinal_le_iff)
  then have d0: "0 \<le> days_between (dt_date now) (dt_date birth)"
    by (simp add: days_between_def)
  have "1 * 146097 \<le> L * 146097" using assms(5) by (intro mult_right_mono) simp_all
  then have "146097 div 400 \<le> L * 146097 div 400" by (intro zdiv_mono1) simp_all
  then have "365 \<le> L * 146097 div 400" by simp
  then have "365 div 7 \<le> total" unfolding total_def by (intro zdiv_mono1) simp_all
  then have t0: "0 \<le> total" by simp
  have f0: "0 \<le> filled" unfolding filled_def using d0 t0 by (simp add: pos_imp_zdiv_nonneg_iff)
  have f1: "filled \<le> total" by (simp add: filled_def)
  from c r t f0 f1 show ?thesis unfolding filled_def by blast
qed

theorem life_calculate_spec_witness:
  "\<exists>lc. LifeCalendarData sample_strptime ''1990-05-15'' 90 = Inr lc \<and>
        life_calculate sample_now lc = Inr (4695, 1774)"
proof -
  have p: "sample_strptime ''1990-05-15'' = Some \<lparr>dt_date = \<lparr>year = 1990, month = 5, day = 15\<rparr>, dt_micros = 0\<rparr>"
    by (simp add: sample_strptime_def)
  have v1: "valid_date (dt_date \<lparr>dt_date = \<lparr>year = 1990, month = 5, day = 15\<rparr>, dt_micros = 0\<rparr>)"
    by (simp add: date_eval)
  have v2: "valid_date (dt_date sample_now)" by (simp add: sample_now_def date_eval)
  have le: "date_le (dt_date \<lparr>dt_date = \<lparr>year = 1990, month = 5, day = 15\<rparr>, dt_micros = 0\<rparr>) (dt_date sample_now)"
    by (simp add: sample_now_def date_eval)
  have d: "days_between (dt_date sample_now) \<lparr>year = 1990, month = 5, day = 15\<rparr> = 12419"
    by (simp add: sample_now_def date_eval)
  from life_calculate_spec[of sample_strptime "''1990-05-15''"
      "\<lparr>dt_date = \<lparr>year = 1990, month = 5, day = 15\<rparr>, dt_micros = 0\<rparr>" sample_now 90,
      OF p v1 v2 le]
  show ?thesis by (simp add: d)
qed

end
